theory Spec2Isabelle
  imports Main "HOL-Library.Word"
begin

unbundle bit_operations_syntax

section \<open>Board geometry\<close>

text \<open>
  The source fixes the side length of the triangle as a constant; holes carry their
  coordinates and a dense index, and the board is the list of its rows.
\<close>

definition N :: int where
  "N = 5"

record hole =
  row :: int
  col :: int
  index :: int

record board =
  grid :: "hole list list"

text \<open>
  \<open>makeBoard\<close> runs two nested counting loops and threads the running index through
  both. Each loop is a recursive function over its counter, with the array under
  construction and the running index as accumulators.
\<close>

function rowLoop :: "int \<Rightarrow> int \<Rightarrow> hole list \<Rightarrow> int \<Rightarrow> hole list \<times> int" where
  "rowLoop r c thisRow i =
     (if c \<le> r
      then rowLoop r (c + 1) (thisRow @ [\<lparr>row = r, col = c, index = i\<rparr>]) (i + 1)
      else (thisRow, i))"
  by pat_completeness auto
termination
  by (relation "measure (\<lambda>(r, c, thisRow, i). nat (r + 1 - c))") auto

function gridLoop :: "int \<Rightarrow> hole list list \<Rightarrow> int \<Rightarrow> hole list list" where
  "gridLoop r g i =
     (if r < N
      then (case rowLoop r 0 [] i of (thisRow, i') \<Rightarrow> gridLoop (r + 1) (g @ [thisRow]) i')
      else g)"
  by pat_completeness auto
termination
  by (relation "measure (\<lambda>(r, g, i). nat (N - r))") auto

definition makeBoard :: board where
  "makeBoard = \<lparr>grid = gridLoop 0 [] 0\<rparr>"

definition holes :: "board \<Rightarrow> hole list" where
  "holes b = concat (grid b)"

section \<open>Positions\<close>

text \<open>
  A position is a JavaScript number that only ever passes through the 32-bit bitwise
  operators, so it is a 32-bit word. The shift \<open>1 << index\<close> takes its count modulo 32.
\<close>

record position =
  bits :: "32 word"

definition shiftCount :: "int \<Rightarrow> nat" where
  "shiftCount i = nat (i mod 32)"

definition oneShl :: "int \<Rightarrow> 32 word" where
  "oneShl i = push_bit (shiftCount i) 1"

definition hasPeg :: "position \<Rightarrow> hole \<Rightarrow> 32 word" where
  "hasPeg p h = bits p AND oneShl (index h)"

definition isEmpty :: "position \<Rightarrow> hole \<Rightarrow> bool" where
  "isEmpty p h = (hasPeg p h = 0)"

definition fullBoardWithVacancyAt :: "int \<Rightarrow> position" where
  "fullBoardWithVacancyAt i = \<lparr>bits = oneShl i XOR 0x7fff\<rparr>"

definition pegCount :: "position \<Rightarrow> board \<Rightarrow> nat" where
  "pegCount p b = length (filter (\<lambda>h. hasPeg p h \<noteq> 0) (holes b))"

section \<open>Moves\<close>

text \<open>
  The \<open>apply\<close> closure of a move captures nothing but the three-bit mask, so a move
  records that mask and \<open>apply_move\<close> is the body of the closure.
\<close>

record move =
  start :: hole
  middle :: hole
  destination :: hole
  mask :: "32 word"

definition apply_move :: "move \<Rightarrow> position \<Rightarrow> position" where
  "apply_move m p = \<lparr>bits = bits p XOR mask m\<rparr>"

datatype error = TypeError

text \<open>
  Reading \<open>grid[r][c]\<close>: outside the array of rows the first read gives
  \<open>undefined\<close> and the second read throws; outside the row the result is
  \<open>undefined\<close> and the next use of it (a destructuring of its fields) throws. Both
  are \<open>None\<close> here and become a \<open>TypeError\<close> at the caller, before anything else
  is yielded.
\<close>

definition gridAt :: "hole list list \<Rightarrow> int \<Rightarrow> int \<Rightarrow> hole option" where
  "gridAt g r c =
     (if 0 \<le> r \<and> r < int (length g)
      then (let thisRow = g ! nat r
            in if 0 \<le> c \<and> c < int (length thisRow) then Some (thisRow ! nat c) else None)
      else None)"

record direction =
  rowDelta :: int
  colDelta :: int

definition directions :: "hole \<Rightarrow> direction list" where
  "directions h =
     (if col h > 1 then [\<lparr>rowDelta = 0, colDelta = -1\<rparr>] else []) @
     (if col h + 2 \<le> row h then [\<lparr>rowDelta = 0, colDelta = 1\<rparr>] else []) @
     (if row h > 1 \<and> col h < row h - 2 then [\<lparr>rowDelta = -1, colDelta = 0\<rparr>] else []) @
     (if row h > 1 \<and> col h > 1 then [\<lparr>rowDelta = -1, colDelta = -1\<rparr>] else []) @
     (if row h < N - 2
      then [\<lparr>rowDelta = 1, colDelta = 0\<rparr>, \<lparr>rowDelta = 1, colDelta = 1\<rparr>]
      else [])"

definition neighbor :: "hole list list \<Rightarrow> direction \<Rightarrow> hole \<Rightarrow> hole option" where
  "neighbor g d h = gridAt g (row h + rowDelta d) (col h + colDelta d)"

text \<open>
  The body of the innermost loop, given the two-step neighbour function of the
  direction at hand: it throws, skips the direction (\<open>continue\<close>) or yields a move.
\<close>

definition jump :: "position \<Rightarrow> (hole \<Rightarrow> hole option) \<Rightarrow> hole \<Rightarrow> error + move option" where
  "jump p step s =
     (case step s of
        None \<Rightarrow> Inl TypeError
      | Some md \<Rightarrow>
          if isEmpty p md then Inr None
          else (case step md of
                  None \<Rightarrow> Inl TypeError
                | Some dst \<Rightarrow>
                    if hasPeg p dst \<noteq> 0 then Inr None
                    else Inr (Some \<lparr>start = s, middle = md, destination = dst,
                           mask = oneShl (index s) OR oneShl (index md) OR oneShl (index dst)\<rparr>)))"

text \<open>
  A generator is the list of moves it yields, followed by the exception that ends it, if
  any. \<open>collect\<close> runs the outcomes of the loop bodies in order up to the first throw.
\<close>

fun collect :: "(error + 'a option) list \<Rightarrow> 'a list \<times> error option" where
  "collect [] = ([], None)"
| "collect (Inl e # xs) = ([], Some e)"
| "collect (Inr None # xs) = collect xs"
| "collect (Inr (Some m) # xs) = (case collect xs of (ms, err) \<Rightarrow> (m # ms, err))"

definition outcomes :: "position \<Rightarrow> board \<Rightarrow> (error + move option) list" where
  "outcomes p b =
     concat (map (\<lambda>thisRow.
       concat (map (\<lambda>s.
         if hasPeg p s \<noteq> 0
         then map (\<lambda>d. jump p (neighbor (grid b) d) s) (directions s)
         else []) thisRow)) (grid b))"

definition possibleMoves :: "position \<Rightarrow> board \<Rightarrow> move list \<times> error option" where
  "possibleMoves p b = collect (outcomes p b)"

subsection \<open>The variant whose directions are neighbour closures\<close>

definition directionsC :: "hole list list \<Rightarrow> hole \<Rightarrow> (hole \<Rightarrow> hole option) list" where
  "directionsC g h =
     (if col h > 1 then [\<lambda>x. gridAt g (row x) (col x - 1)] else []) @
     (if col h + 2 \<le> row h then [\<lambda>x. gridAt g (row x) (col x + 1)] else []) @
     (if row h > 1 \<and> col h < row h - 2 then [\<lambda>x. gridAt g (row x - 1) (col x)] else []) @
     (if row h > 1 \<and> col h > 1 then [\<lambda>x. gridAt g (row x - 1) (col x - 1)] else []) @
     (if row h < N - 2
      then [\<lambda>x. gridAt g (row x + 1) (col x), \<lambda>x. gridAt g (row x + 1) (col x + 1)]
      else [])"

definition outcomesC :: "position \<Rightarrow> board \<Rightarrow> (error + move option) list" where
  "outcomesC p b =
     concat (map (\<lambda>thisRow.
       concat (map (\<lambda>s.
         if hasPeg p s \<noteq> 0
         then map (\<lambda>step. jump p step s) (directionsC (grid b) s)
         else []) thisRow)) (grid b))"

definition possibleMovesC :: "position \<Rightarrow> board \<Rightarrow> move list \<times> error option" where
  "possibleMovesC p b = collect (outcomesC p b)"

section \<open>Backtracking search\<close>

text \<open>
  The \<open>for\<close> loop of \<open>addMoves\<close> over a generator: the first move whose recursive
  call returns a list wins, an exception of the recursive call or of the generator
  propagates, and running out of moves gives \<open>null\<close> (\<open>Inr None\<close>). The empty list is
  truthy in JavaScript, so every returned list counts as success.
\<close>

fun tryMoves :: "(move \<Rightarrow> error + move list option) \<Rightarrow> move list \<Rightarrow> error option
    \<Rightarrow> error + move list option" where
  "tryMoves rec [] None = Inr None"
| "tryMoves rec [] (Some e) = Inl e"
| "tryMoves rec (m # ms) err =
     (case rec m of
        Inl e \<Rightarrow> Inl e
      | Inr None \<Rightarrow> tryMoves rec ms err
      | Inr (Some tail) \<Rightarrow> Inr (Some (m # tail)))"

primrec addMoves :: "board \<Rightarrow> nat \<Rightarrow> position \<Rightarrow> error + move list option" where
  "addMoves b 0 p = Inr (Some [])"
| "addMoves b (Suc depth) p =
     (case possibleMoves p b of
        (ms, err) \<Rightarrow> tryMoves (\<lambda>m. addMoves b depth (apply_move m p)) ms err)"

text \<open>
  \<open>solve\<close> starts the search at the fixed depth 13. The non-null assertion on its
  result is erased at run time, so a \<open>null\<close> of the search reaches the caller as it is.
\<close>

definition solve :: "position \<Rightarrow> board \<Rightarrow> error + move list option" where
  "solve p b = addMoves b 13 p"

primrec addMovesC :: "board \<Rightarrow> nat \<Rightarrow> position \<Rightarrow> error + move list option" where
  "addMovesC b 0 p = Inr (Some [])"
| "addMovesC b (Suc depth) p =
     (case possibleMovesC p b of
        (ms, err) \<Rightarrow> tryMoves (\<lambda>m. addMovesC b depth (apply_move m p)) ms err)"

definition solveC :: "position \<Rightarrow> board \<Rightarrow> error + move list option" where
  "solveC p b = addMovesC b 13 p"

text \<open>Replaying a list of moves, and the positions passed on the way.\<close>

fun applyMoves :: "move list \<Rightarrow> position \<Rightarrow> position" where
  "applyMoves [] p = p"
| "applyMoves (m # ms) p = applyMoves ms (apply_move m p)"

fun positionsAlong :: "move list \<Rightarrow> position \<Rightarrow> position list" where
  "positionsAlong [] p = [p]"
| "positionsAlong (m # ms) p = p # positionsAlong ms (apply_move m p)"

section \<open>Notions used to state the properties\<close>

text \<open>The bit of a position that \<open>hasPeg\<close> tests for a hole.\<close>

definition bitOf :: "hole \<Rightarrow> nat" where
  "bitOf h = shiftCount (index h)"

text \<open>The moves a loop outcome contributes to the generator.\<close>

definition yields :: "error + 'a option \<Rightarrow> 'a list" where
  "yields x = (case x of Inr (Some m) \<Rightarrow> [m] | _ \<Rightarrow> [])"

text \<open>
  The part of the board invariant that move enumeration relies on: every hole sits at
  the grid place its coordinates name, no two holes share an index, and every index is
  a bit of the 32-bit position.
\<close>

definition wf_board :: "board \<Rightarrow> bool" where
  "wf_board b \<longleftrightarrow>
     (\<forall>r \<in> set [0..<length (grid b)]. \<forall>c \<in> set [0..<length (grid b ! r)].
        row (grid b ! r ! c) = int r \<and> col (grid b ! r ! c) = int c) \<and>
     distinct (map index (holes b)) \<and>
     (\<forall>h \<in> set (holes b). 0 \<le> index h \<and> index h < 32)"

text \<open>Every grid read of move enumeration finds a hole.\<close>

definition inBounds :: "board \<Rightarrow> bool" where
  "inBounds b \<longleftrightarrow>
     (\<forall>s \<in> set (holes b). \<forall>d \<in> set (directions s).
        case neighbor (grid b) d s of
          None \<Rightarrow> False
        | Some md \<Rightarrow> neighbor (grid b) d md \<noteq> None)"

text \<open>A list of moves each of which is yielded at the position its predecessors lead to.\<close>

fun validPath :: "board \<Rightarrow> position \<Rightarrow> move list \<Rightarrow> bool" where
  "validPath b p [] = True"
| "validPath b p (m # ms) =
     (m \<in> set (fst (possibleMoves p b)) \<and> validPath b (apply_move m p) ms)"

definition pegCounts :: "board \<Rightarrow> move list \<Rightarrow> position \<Rightarrow> nat list" where
  "pegCounts b ms p = map (\<lambda>q. pegCount q b) (positionsAlong ms p)"

text \<open>
  The jumps that the direction conditions admit on the standard board, grouped by start
  hole in enumeration order: each start hole with its (middle, destination) pairs.
\<close>

definition stdJumps :: "(hole \<times> (hole \<times> hole) list) list" where
  "stdJumps =
  [(\<lparr>row = 0, col = 0, index = 0\<rparr>,
    [(\<lparr>row = 1, col = 0, index = 1\<rparr>, \<lparr>row = 2, col = 0, index = 3\<rparr>),
     (\<lparr>row = 1, col = 1, index = 2\<rparr>, \<lparr>row = 2, col = 2, index = 5\<rparr>)]),
   (\<lparr>row = 1, col = 0, index = 1\<rparr>,
    [(\<lparr>row = 2, col = 0, index = 3\<rparr>, \<lparr>row = 3, col = 0, index = 6\<rparr>),
     (\<lparr>row = 2, col = 1, index = 4\<rparr>, \<lparr>row = 3, col = 2, index = 8\<rparr>)]),
   (\<lparr>row = 1, col = 1, index = 2\<rparr>,
    [(\<lparr>row = 2, col = 1, index = 4\<rparr>, \<lparr>row = 3, col = 1, index = 7\<rparr>),
     (\<lparr>row = 2, col = 2, index = 5\<rparr>, \<lparr>row = 3, col = 3, index = 9\<rparr>)]),
   (\<lparr>row = 2, col = 0, index = 3\<rparr>,
    [(\<lparr>row = 2, col = 1, index = 4\<rparr>, \<lparr>row = 2, col = 2, index = 5\<rparr>),
     (\<lparr>row = 3, col = 0, index = 6\<rparr>, \<lparr>row = 4, col = 0, index = 10\<rparr>),
     (\<lparr>row = 3, col = 1, index = 7\<rparr>, \<lparr>row = 4, col = 2, index = 12\<rparr>)]),
   (\<lparr>row = 2, col = 1, index = 4\<rparr>,
    [(\<lparr>row = 3, col = 1, index = 7\<rparr>, \<lparr>row = 4, col = 1, index = 11\<rparr>),
     (\<lparr>row = 3, col = 2, index = 8\<rparr>, \<lparr>row = 4, col = 3, index = 13\<rparr>)]),
   (\<lparr>row = 2, col = 2, index = 5\<rparr>,
    [(\<lparr>row = 2, col = 1, index = 4\<rparr>, \<lparr>row = 2, col = 0, index = 3\<rparr>),
     (\<lparr>row = 1, col = 1, index = 2\<rparr>, \<lparr>row = 0, col = 0, index = 0\<rparr>),
     (\<lparr>row = 3, col = 2, index = 8\<rparr>, \<lparr>row = 4, col = 2, index = 12\<rparr>),
     (\<lparr>row = 3, col = 3, index = 9\<rparr>, \<lparr>row = 4, col = 4, index = 14\<rparr>)]),
   (\<lparr>row = 3, col = 0, index = 6\<rparr>,
    [(\<lparr>row = 3, col = 1, index = 7\<rparr>, \<lparr>row = 3, col = 2, index = 8\<rparr>),
     (\<lparr>row = 2, col = 0, index = 3\<rparr>, \<lparr>row = 1, col = 0, index = 1\<rparr>)]),
   (\<lparr>row = 3, col = 1, index = 7\<rparr>,
    [(\<lparr>row = 3, col = 2, index = 8\<rparr>, \<lparr>row = 3, col = 3, index = 9\<rparr>)]),
   (\<lparr>row = 3, col = 2, index = 8\<rparr>,
    [(\<lparr>row = 3, col = 1, index = 7\<rparr>, \<lparr>row = 3, col = 0, index = 6\<rparr>),
     (\<lparr>row = 2, col = 1, index = 4\<rparr>, \<lparr>row = 1, col = 0, index = 1\<rparr>)]),
   (\<lparr>row = 3, col = 3, index = 9\<rparr>,
    [(\<lparr>row = 3, col = 2, index = 8\<rparr>, \<lparr>row = 3, col = 1, index = 7\<rparr>),
     (\<lparr>row = 2, col = 2, index = 5\<rparr>, \<lparr>row = 1, col = 1, index = 2\<rparr>)]),
   (\<lparr>row = 4, col = 0, index = 10\<rparr>,
    [(\<lparr>row = 4, col = 1, index = 11\<rparr>, \<lparr>row = 4, col = 2, index = 12\<rparr>),
     (\<lparr>row = 3, col = 0, index = 6\<rparr>, \<lparr>row = 2, col = 0, index = 3\<rparr>)]),
   (\<lparr>row = 4, col = 1, index = 11\<rparr>,
    [(\<lparr>row = 4, col = 2, index = 12\<rparr>, \<lparr>row = 4, col = 3, index = 13\<rparr>),
     (\<lparr>row = 3, col = 1, index = 7\<rparr>, \<lparr>row = 2, col = 1, index = 4\<rparr>)]),
   (\<lparr>row = 4, col = 2, index = 12\<rparr>,
    [(\<lparr>row = 4, col = 1, index = 11\<rparr>, \<lparr>row = 4, col = 0, index = 10\<rparr>),
     (\<lparr>row = 4, col = 3, index = 13\<rparr>, \<lparr>row = 4, col = 4, index = 14\<rparr>),
     (\<lparr>row = 3, col = 1, index = 7\<rparr>, \<lparr>row = 2, col = 0, index = 3\<rparr>)]),
   (\<lparr>row = 4, col = 3, index = 13\<rparr>,
    [(\<lparr>row = 4, col = 2, index = 12\<rparr>, \<lparr>row = 4, col = 1, index = 11\<rparr>),
     (\<lparr>row = 3, col = 2, index = 8\<rparr>, \<lparr>row = 2, col = 1, index = 4\<rparr>)]),
   (\<lparr>row = 4, col = 4, index = 14\<rparr>,
    [(\<lparr>row = 4, col = 3, index = 13\<rparr>, \<lparr>row = 4, col = 2, index = 12\<rparr>),
     (\<lparr>row = 3, col = 3, index = 9\<rparr>, \<lparr>row = 2, col = 2, index = 5\<rparr>)])]"

text \<open>The list of moves that the search finds from the position with hole 12 vacant.\<close>

definition solution12 :: "move list" where
  "solution12 =
  [\<lparr>start = \<lparr>row = 2, col = 0, index = 3\<rparr>, middle = \<lparr>row = 3, col = 1, index = 7\<rparr>,
      destination = \<lparr>row = 4, col = 2, index = 12\<rparr>, mask = 4232\<rparr>,
   \<lparr>start = \<lparr>row = 0, col = 0, index = 0\<rparr>, middle = \<lparr>row = 1, col = 0, index = 1\<rparr>,
      destination = \<lparr>row = 2, col = 0, index = 3\<rparr>, mask = 11\<rparr>,
   \<lparr>start = \<lparr>row = 1, col = 1, index = 2\<rparr>, middle = \<lparr>row = 2, col = 1, index = 4\<rparr>,
      destination = \<lparr>row = 3, col = 1, index = 7\<rparr>, mask = 148\<rparr>,
   \<lparr>start = \<lparr>row = 3, col = 0, index = 6\<rparr>, middle = \<lparr>row = 2, col = 0, index = 3\<rparr>,
      destination = \<lparr>row = 1, col = 0, index = 1\<rparr>, mask = 74\<rparr>,
   \<lparr>start = \<lparr>row = 3, col = 3, index = 9\<rparr>, middle = \<lparr>row = 2, col = 2, index = 5\<rparr>,
      destination = \<lparr>row = 1, col = 1, index = 2\<rparr>, mask = 548\<rparr>,
   \<lparr>start = \<lparr>row = 4, col = 2, index = 12\<rparr>, middle = \<lparr>row = 3, col = 1, index = 7\<rparr>,
      destination = \<lparr>row = 2, col = 0, index = 3\<rparr>, mask = 4232\<rparr>,
   \<lparr>start = \<lparr>row = 1, col = 0, index = 1\<rparr>, middle = \<lparr>row = 2, col = 0, index = 3\<rparr>,
      destination = \<lparr>row = 3, col = 0, index = 6\<rparr>, mask = 74\<rparr>,
   \<lparr>start = \<lparr>row = 4, col = 0, index = 10\<rparr>, middle = \<lparr>row = 3, col = 0, index = 6\<rparr>,
      destination = \<lparr>row = 2, col = 0, index = 3\<rparr>, mask = 1096\<rparr>,
   \<lparr>start = \<lparr>row = 4, col = 3, index = 13\<rparr>, middle = \<lparr>row = 3, col = 2, index = 8\<rparr>,
      destination = \<lparr>row = 2, col = 1, index = 4\<rparr>, mask = 8464\<rparr>,
   \<lparr>start = \<lparr>row = 1, col = 1, index = 2\<rparr>, middle = \<lparr>row = 2, col = 1, index = 4\<rparr>,
      destination = \<lparr>row = 3, col = 1, index = 7\<rparr>, mask = 148\<rparr>,
   \<lparr>start = \<lparr>row = 2, col = 0, index = 3\<rparr>, middle = \<lparr>row = 3, col = 1, index = 7\<rparr>,
      destination = \<lparr>row = 4, col = 2, index = 12\<rparr>, mask = 4232\<rparr>,
   \<lparr>start = \<lparr>row = 4, col = 1, index = 11\<rparr>, middle = \<lparr>row = 4, col = 2, index = 12\<rparr>,
      destination = \<lparr>row = 4, col = 3, index = 13\<rparr>, mask = 14336\<rparr>,
   \<lparr>start = \<lparr>row = 4, col = 4, index = 14\<rparr>, middle = \<lparr>row = 4, col = 3, index = 13\<rparr>,
      destination = \<lparr>row = 4, col = 2, index = 12\<rparr>, mask = 28672\<rparr>]"

section \<open>Bits of a position\<close>

lemma shiftCount_lt: "shiftCount i < 32"
  by (simp add: shiftCount_def)

lemma bitOf_lt: "bitOf h < 32"
  by (simp add: bitOf_def shiftCount_lt)

lemma hasPeg_bitOf: "hasPeg p h \<noteq> 0 \<longleftrightarrow> bit (bits p) (bitOf h)"
  by (simp add: hasPeg_def oneShl_def bitOf_def push_bit_of_1 and_exp_eq_0_iff_not_bit)

lemma hasPeg_bitOf0: "hasPeg p h = 0 \<longleftrightarrow> \<not> bit (bits p) (bitOf h)"
  using hasPeg_bitOf [of p h] by blast

lemma bit_oneShl: "bit (oneShl i) n \<longleftrightarrow> n = shiftCount i"
  using shiftCount_lt [of i]
  by (auto simp add: oneShl_def push_bit_of_1 bit_exp_iff possible_bit_word)

lemma bit_apply_move:
  assumes "mask m = oneShl (index (start m)) OR oneShl (index (middle m))
           OR oneShl (index (destination m))"
  shows "bit (bits (apply_move m p)) n \<longleftrightarrow>
     (bit (bits p) n \<noteq> (n \<in> {bitOf (start m), bitOf (middle m), bitOf (destination m)}))"
  by (auto simp: apply_move_def assms bit_xor_iff bit_or_iff bit_oneShl bitOf_def)

section \<open>The generator\<close>

lemma collect_fst_mem: "m \<in> set (fst (collect xs)) \<Longrightarrow> Inr (Some m) \<in> set xs"
  by (induction xs rule: collect.induct) (auto split: prod.splits)

lemma collect_no_throw:
  "\<forall>x \<in> set xs. \<forall>e. x \<noteq> Inl e \<Longrightarrow> collect xs = (concat (map yields xs), None)"
  by (induction xs rule: collect.induct) (auto simp: yields_def)

lemma jump_SomeD:
  assumes "jump p step s = Inr (Some m)"
  shows "start m = s" and "step s = Some (middle m)"
    and "step (middle m) = Some (destination m)"
    and "hasPeg p (middle m) \<noteq> 0" and "hasPeg p (destination m) = 0"
    and "mask m = oneShl (index (start m)) OR oneShl (index (middle m))
           OR oneShl (index (destination m))"
  using assms
  by (auto simp: jump_def isEmpty_def split: option.splits if_splits)

lemma jump_no_throw:
  "step s = Some md \<Longrightarrow> step md = Some dst \<Longrightarrow> jump p step s \<noteq> Inl e"
  by (simp add: jump_def)

lemma outcomes_mem:
  "x \<in> set (outcomes p b) \<longleftrightarrow>
     (\<exists>s \<in> set (holes b). hasPeg p s \<noteq> 0 \<and>
        (\<exists>d \<in> set (directions s). x = jump p (neighbor (grid b) d) s))"
  by (auto simp: outcomes_def holes_def split: if_splits)

lemma gridAt_mem: "gridAt g r c = Some h \<Longrightarrow> h \<in> set (concat g)"
proof -
  assume a: "gridAt g r c = Some h"
  then have r: "nat r < length g" and c: "nat c < length (g ! nat r)"
    and h: "h = g ! nat r ! nat c"
    by (auto simp: gridAt_def Let_def split: if_splits)
  have "g ! nat r \<in> set g" using r by simp
  moreover have "h \<in> set (g ! nat r)" using c h by simp
  ultimately show ?thesis by auto
qed

lemma directions_delta:
  "d \<in> set (directions h) \<Longrightarrow>
     (rowDelta d, colDelta d) \<in> {(0, -1), (0, 1), (-1, 0), (-1, -1), (1, 0), (1, 1)}"
  by (auto simp: directions_def split: if_splits)

lemma possibleMoves_yieldD:
  assumes "m \<in> set (fst (possibleMoves p b))"
  shows "start m \<in> set (holes b)"
    and "hasPeg p (start m) \<noteq> 0"
    and "\<exists>d \<in> set (directions (start m)).
           neighbor (grid b) d (start m) = Some (middle m) \<and>
           neighbor (grid b) d (middle m) = Some (destination m)"
    and "hasPeg p (middle m) \<noteq> 0"
    and "hasPeg p (destination m) = 0"
    and "mask m = oneShl (index (start m)) OR oneShl (index (middle m))
           OR oneShl (index (destination m))"
proof -
  from assms have "Inr (Some m) \<in> set (outcomes p b)"
    by (simp add: possibleMoves_def collect_fst_mem)
  then obtain s d where s: "s \<in> set (holes b)" "hasPeg p s \<noteq> 0"
    and d: "d \<in> set (directions s)"
    and j: "jump p (neighbor (grid b) d) s = Inr (Some m)"
    unfolding outcomes_mem by metis
  note D = jump_SomeD [OF j]
  show "start m \<in> set (holes b)" "hasPeg p (start m) \<noteq> 0"
    using s D(1) by simp_all
  show "\<exists>d \<in> set (directions (start m)).
           neighbor (grid b) d (start m) = Some (middle m) \<and>
           neighbor (grid b) d (middle m) = Some (destination m)"
    using d D(1,2,3) by auto
  show "hasPeg p (middle m) \<noteq> 0" "hasPeg p (destination m) = 0"
    "mask m = oneShl (index (start m)) OR oneShl (index (middle m))
           OR oneShl (index (destination m))"
    using D(4,5,6) by simp_all
qed

lemma yielded_holes:
  assumes "m \<in> set (fst (possibleMoves p b))"
  shows "middle m \<in> set (holes b)" and "destination m \<in> set (holes b)"
  using possibleMoves_yieldD(3) [OF assms]
  by (auto simp: neighbor_def holes_def dest: gridAt_mem)

lemma possibleMoves_inBounds:
  assumes "inBounds b"
  shows "possibleMoves p b = (concat (map yields (outcomes p b)), None)"
  unfolding possibleMoves_def
proof (rule collect_no_throw, intro ballI allI)
  fix x e assume "x \<in> set (outcomes p b)"
  then obtain s d where s: "s \<in> set (holes b)" and d: "d \<in> set (directions s)"
    and x: "x = jump p (neighbor (grid b) d) s"
    unfolding outcomes_mem by blast
  from assms s d obtain md dst where "neighbor (grid b) d s = Some md"
    "neighbor (grid b) d md = Some dst"
    unfolding inBounds_def by (fastforce split: option.splits)
  then show "x \<noteq> Inl e" unfolding x by (rule jump_no_throw)
qed

lemma yielded_intro:
  assumes ib: "inBounds b" and s: "s \<in> set (holes b)" "hasPeg p s \<noteq> 0"
    and d: "d \<in> set (directions s)"
    and n: "neighbor (grid b) d s = Some md" "neighbor (grid b) d md = Some dst"
    and occ: "hasPeg p md \<noteq> 0" "hasPeg p dst = 0"
  shows "\<lparr>start = s, middle = md, destination = dst,
           mask = oneShl (index s) OR oneShl (index md) OR oneShl (index dst)\<rparr>
         \<in> set (fst (possibleMoves p b))"
proof -
  let ?m = "\<lparr>start = s, middle = md, destination = dst,
           mask = oneShl (index s) OR oneShl (index md) OR oneShl (index dst)\<rparr>"
  have j: "jump p (neighbor (grid b) d) s = Inr (Some ?m)"
    using n occ by (simp add: jump_def isEmpty_def)
  have "Inr (Some ?m) \<in> set (outcomes p b)"
    unfolding outcomes_mem using s d j by metis
  then have "\<exists>x \<in> set (outcomes p b). ?m \<in> set (yields x)"
    by (rule bexI [rotated]) (simp add: yields_def)
  then show ?thesis
    by (simp add: possibleMoves_inBounds [OF ib])
qed

section \<open>Well-formed boards\<close>

lemma wf_bitOf: "wf_board b \<Longrightarrow> h \<in> set (holes b) \<Longrightarrow> bitOf h = nat (index h)"
  by (simp add: wf_board_def bitOf_def shiftCount_def)

lemma wf_distinct: "wf_board b \<Longrightarrow> distinct (holes b)"
  by (simp add: wf_board_def distinct_map)

lemma wf_inj: "wf_board b \<Longrightarrow> inj_on bitOf (set (holes b))"
proof (rule inj_onI)
  fix x y
  assume wf: "wf_board b" and x: "x \<in> set (holes b)" and y: "y \<in> set (holes b)"
    and e: "bitOf x = bitOf y"
  from wf x y have "0 \<le> index x" "0 \<le> index y" by (simp_all add: wf_board_def)
  with e wf x y have "index x = index y" by (simp add: wf_bitOf)
  moreover from wf have "inj_on index (set (holes b))"
    by (simp add: wf_board_def distinct_map)
  ultimately show "x = y" using x y by (auto dest: inj_onD)
qed

lemma wf_gridAt:
  assumes "wf_board b" and "gridAt (grid b) r c = Some h"
  shows "row h = r" and "col h = c"
proof -
  from assms(2) have r: "0 \<le> r" "nat r < length (grid b)"
    and c: "0 \<le> c" "nat c < length (grid b ! nat r)" and h: "h = grid b ! nat r ! nat c"
    by (auto simp: gridAt_def Let_def split: if_splits)
  from assms(1) r(2) c(2) have "row (grid b ! nat r ! nat c) = int (nat r) \<and>
      col (grid b ! nat r ! nat c) = int (nat c)"
    by (simp add: wf_board_def)
  then show "row h = r" "col h = c" using r(1) c(1) h by simp_all
qed

lemma yielded_start_neq_middle:
  assumes "wf_board b" and "m \<in> set (fst (possibleMoves p b))"
  shows "start m \<noteq> middle m"
proof -
  from possibleMoves_yieldD(3) [OF assms(2)] obtain d
    where d: "d \<in> set (directions (start m))"
      and n: "neighbor (grid b) d (start m) = Some (middle m)" by blast
  from n have "row (middle m) = row (start m) + rowDelta d"
    "col (middle m) = col (start m) + colDelta d"
    using wf_gridAt [OF assms(1)] by (simp_all add: neighbor_def)
  moreover from directions_delta [OF d] have "rowDelta d \<noteq> 0 \<or> colDelta d \<noteq> 0"
    by auto
  ultimately show ?thesis by auto
qed

lemma yielded_bits_distinct:
  assumes "wf_board b" and "m \<in> set (fst (possibleMoves p b))"
  shows "distinct [bitOf (start m), bitOf (middle m), bitOf (destination m)]"
proof -
  have "bitOf (start m) \<noteq> bitOf (middle m)"
    using wf_inj [OF assms(1)] yielded_start_neq_middle [OF assms]
      possibleMoves_yieldD(1) [OF assms(2)] yielded_holes(1) [OF assms(2)]
    by (auto dest: inj_onD)
  moreover have "bit (bits p) (bitOf (start m))" "bit (bits p) (bitOf (middle m))"
    "\<not> bit (bits p) (bitOf (destination m))"
    using possibleMoves_yieldD(2,4,5) [OF assms(2)]
    by (simp_all add: hasPeg_bitOf hasPeg_bitOf0)
  ultimately show ?thesis by auto
qed

section \<open>Peg counts along yielded moves\<close>

lemma pegCount_card:
  assumes "wf_board b"
  shows "pegCount p b = card {h \<in> set (holes b). bit (bits p) (bitOf h)}"
proof -
  have "pegCount p b = card ({h. hasPeg p h \<noteq> 0} \<inter> set (holes b))"
    unfolding pegCount_def using wf_distinct [OF assms] by (rule distinct_length_filter)
  also have "{h. hasPeg p h \<noteq> 0} \<inter> set (holes b) =
      {h \<in> set (holes b). bit (bits p) (bitOf h)}"
    by (auto simp: hasPeg_bitOf)
  finally show ?thesis .
qed

lemma yielded_pegCount:
  assumes wf: "wf_board b" and y: "m \<in> set (fst (possibleMoves p b))"
  shows "pegCount (apply_move m p) b + 1 = pegCount p b"
    and "2 \<le> pegCount p b"
    and "pegCount p b < length (holes b)"
proof -
  let ?H = "set (holes b)"
  let ?A = "{h \<in> ?H. bit (bits p) (bitOf h)}"
  let ?A' = "{h \<in> ?H. bit (bits (apply_move m p)) (bitOf h)}"
  let ?s = "start m" and ?md = "middle m" and ?dst = "destination m"
  note inj = wf_inj [OF wf]
  have mem: "?s \<in> ?H" "?md \<in> ?H" "?dst \<in> ?H"
    using possibleMoves_yieldD(1) [OF y] yielded_holes [OF y] by simp_all
  have occ: "bit (bits p) (bitOf ?s)" "bit (bits p) (bitOf ?md)"
    "\<not> bit (bits p) (bitOf ?dst)"
    using possibleMoves_yieldD(2,4,5) [OF y] by (simp_all add: hasPeg_bitOf hasPeg_bitOf0)
  have ne: "?s \<noteq> ?md" by (rule yielded_start_neq_middle [OF wf y])
  have eqs: "bitOf h = bitOf ?s \<longleftrightarrow> h = ?s" "bitOf h = bitOf ?md \<longleftrightarrow> h = ?md"
    "bitOf h = bitOf ?dst \<longleftrightarrow> h = ?dst" if "h \<in> ?H" for h
    using inj that mem by (auto dest: inj_onD)
  have fin: "finite ?A" by simp
  have sA: "?s \<in> ?A" "?md \<in> ?A" "?dst \<notin> ?A" using mem occ by simp_all
  have A': "?A' = insert ?dst (?A - {?s, ?md})"
    using mem occ eqs
    by (auto simp: bit_apply_move [OF possibleMoves_yieldD(6) [OF y]])
  have two: "card {?s, ?md} = 2" using ne by simp
  have sub: "{?s, ?md} \<subseteq> ?A" using sA by simp
  have cardA: "card (?A - {?s, ?md}) = card ?A - 2"
    using card_Diff_subset [of "{?s, ?md}" ?A] sub two by simp
  have ge: "2 \<le> card ?A"
    using card_mono [OF fin sub] two by simp
  have "?dst \<notin> ?A - {?s, ?md}" using sA(3) by blast
  moreover have "finite (?A - {?s, ?md})" by simp
  ultimately have "card ?A' = Suc (card (?A - {?s, ?md}))"
    unfolding A' by (rule card_insert_disjoint [rotated])
  with cardA ge have "card ?A' + 1 = card ?A" by simp
  then show "pegCount (apply_move m p) b + 1 = pegCount p b"
    by (simp add: pegCount_card [OF wf])
  show "2 \<le> pegCount p b" using ge by (simp add: pegCount_card [OF wf])
  have "?A \<subseteq> ?H - {?dst}" using sA(3) by auto
  then have "card ?A \<le> card (?H - {?dst})" by (intro card_mono) simp_all
  also have "\<dots> < card ?H" using mem(3) by (intro psubset_card_mono) auto
  also have "\<dots> \<le> length (holes b)" by (rule card_length)
  finally show "pegCount p b < length (holes b)" by (simp add: pegCount_card [OF wf])
qed

lemma positionsAlong_neq_Nil: "positionsAlong ms p \<noteq> []"
  by (cases ms) simp_all

lemma length_positionsAlong: "length (positionsAlong ms p) = Suc (length ms)"
  by (induction ms arbitrary: p) simp_all

lemma positionsAlong_last: "last (positionsAlong ms p) = applyMoves ms p"
  by (induction ms arbitrary: p) (simp_all add: positionsAlong_neq_Nil)

lemma pegCounts_validPath:
  assumes wf: "wf_board b"
  shows "validPath b p ms \<Longrightarrow>
     pegCounts b ms p = map (\<lambda>k. pegCount p b - k) [0..<Suc (length ms)] \<and>
     (ms \<noteq> [] \<longrightarrow> length ms < pegCount p b \<and> pegCount p b < length (holes b))"
proof (induction ms arbitrary: p)
  case Nil
  then show ?case by (simp add: pegCounts_def)
next
  case (Cons m ms)
  from Cons.prems have y: "m \<in> set (fst (possibleMoves p b))"
    and vp: "validPath b (apply_move m p) ms" by simp_all
  note c = yielded_pegCount [OF wf y]
  from Cons.IH [OF vp]
  have ih: "pegCounts b ms (apply_move m p) =
      map (\<lambda>k. pegCount (apply_move m p) b - k) [0..<Suc (length ms)]"
    and lt: "ms \<noteq> [] \<longrightarrow> length ms < pegCount (apply_move m p) b" by simp_all
  have pc: "pegCount (apply_move m p) b = pegCount p b - 1" using c(1) by simp
  have "pegCounts b (m # ms) p = pegCount p b # pegCounts b ms (apply_move m p)"
    by (simp add: pegCounts_def)
  also have "\<dots> = pegCount p b # map (\<lambda>k. pegCount p b - Suc k) [0..<Suc (length ms)]"
    by (simp only: ih pc) simp
  also have "\<dots> = map (\<lambda>k. pegCount p b - k) [0..<Suc (length (m # ms))]"
    by (simp add: upt_conv_Cons map_Suc_upt [symmetric] del: upt_Suc)
  finally show ?case using lt c by (cases ms) auto
qed

section \<open>The search\<close>

lemma tryMoves_SomeD:
  "tryMoves rec ms err = Inr (Some sol) \<Longrightarrow>
     \<exists>m rest. m \<in> set ms \<and> rec m = Inr (Some rest) \<and> sol = m # rest"
  by (induction rec ms err rule: tryMoves.induct)
     (auto split: sum.splits option.splits)

lemma tryMoves_no_throw:
  "\<forall>m e. rec m \<noteq> Inl e \<Longrightarrow> tryMoves rec ms None \<noteq> Inl e"
  by (induction ms) (auto split: sum.splits option.splits)

lemma tryMoves_complete:
  "\<forall>m e. rec m \<noteq> Inl e \<Longrightarrow> m \<in> set ms \<Longrightarrow> rec m = Inr (Some rest) \<Longrightarrow>
     \<exists>sol. tryMoves rec ms err = Inr (Some sol)"
proof (induction ms)
  case Nil
  then show ?case by simp
next
  case (Cons a ms)
  show ?case
  proof (cases "rec a")
    case (Inl e)
    with Cons.prems(1) show ?thesis by simp
  next
    case (Inr r)
    show ?thesis
    proof (cases r)
      case None
      with Inr Cons show ?thesis by auto
    next
      case (Some t)
      with Inr show ?thesis by simp
    qed
  qed
qed

lemma addMoves_sound:
  "addMoves b d p = Inr (Some sol) \<Longrightarrow> length sol = d \<and> validPath b p sol"
proof (induction d arbitrary: p sol)
  case 0
  then show ?case by auto
next
  case (Suc d)
  obtain ms err where pm: "possibleMoves p b = (ms, err)" by (cases "possibleMoves p b")
  with Suc.prems have "tryMoves (\<lambda>m. addMoves b d (apply_move m p)) ms err = Inr (Some sol)"
    by simp
  from tryMoves_SomeD [OF this] obtain m rest where m: "m \<in> set ms"
    and rest: "addMoves b d (apply_move m p) = Inr (Some rest)" and sol: "sol = m # rest"
    by blast
  from Suc.IH [OF rest] m pm sol show ?case by simp
qed

lemma addMoves_no_throw:
  assumes "\<forall>q. snd (possibleMoves q b) = None"
  shows "addMoves b d p \<noteq> Inl e"
proof (induction d arbitrary: p e)
  case 0
  show ?case by simp
next
  case (Suc d)
  obtain ms err where pm: "possibleMoves p b = (ms, err)" by (cases "possibleMoves p b")
  with assms have "err = None" by (metis snd_conv)
  with pm Suc show ?case by (simp add: tryMoves_no_throw)
qed

lemma addMoves_complete:
  assumes "\<forall>q. snd (possibleMoves q b) = None"
  shows "validPath b p ms \<Longrightarrow> \<exists>sol. addMoves b (length ms) p = Inr (Some sol)"
proof (induction ms arbitrary: p)
  case Nil
  show ?case by simp
next
  case (Cons m ms)
  obtain xs err where pm: "possibleMoves p b = (xs, err)" by (cases "possibleMoves p b")
  from Cons.prems pm have mem: "m \<in> set xs" and vp: "validPath b (apply_move m p) ms"
    by simp_all
  from Cons.IH [OF vp] obtain rest where
    rest: "addMoves b (length ms) (apply_move m p) = Inr (Some rest)" by blast
  have "\<forall>m e. addMoves b (length ms) (apply_move m p) \<noteq> Inl e"
    using addMoves_no_throw [OF assms] by blast
  from tryMoves_complete [OF this mem rest, of err] pm show ?case by simp
qed

section \<open>The standard board\<close>

lemma makeBoard_grid: "grid makeBoard =
  [ [\<lparr>row = 0, col = 0, index = 0\<rparr>],
    [\<lparr>row = 1, col = 0, index = 1\<rparr>, \<lparr>row = 1, col = 1, index = 2\<rparr>],
    [\<lparr>row = 2, col = 0, index = 3\<rparr>, \<lparr>row = 2, col = 1, index = 4\<rparr>,
     \<lparr>row = 2, col = 2, index = 5\<rparr>],
    [\<lparr>row = 3, col = 0, index = 6\<rparr>, \<lparr>row = 3, col = 1, index = 7\<rparr>,
     \<lparr>row = 3, col = 2, index = 8\<rparr>, \<lparr>row = 3, col = 3, index = 9\<rparr>],
    [\<lparr>row = 4, col = 0, index = 10\<rparr>, \<lparr>row = 4, col = 1, index = 11\<rparr>,
     \<lparr>row = 4, col = 2, index = 12\<rparr>, \<lparr>row = 4, col = 3, index = 13\<rparr>,
     \<lparr>row = 4, col = 4, index = 14\<rparr>] ]"
  by code_simp

lemma holes_makeBoard: "holes makeBoard =
  [\<lparr>row = 0, col = 0, index = 0\<rparr>,
   \<lparr>row = 1, col = 0, index = 1\<rparr>, \<lparr>row = 1, col = 1, index = 2\<rparr>,
   \<lparr>row = 2, col = 0, index = 3\<rparr>, \<lparr>row = 2, col = 1, index = 4\<rparr>,
   \<lparr>row = 2, col = 2, index = 5\<rparr>,
   \<lparr>row = 3, col = 0, index = 6\<rparr>, \<lparr>row = 3, col = 1, index = 7\<rparr>,
   \<lparr>row = 3, col = 2, index = 8\<rparr>, \<lparr>row = 3, col = 3, index = 9\<rparr>,
   \<lparr>row = 4, col = 0, index = 10\<rparr>, \<lparr>row = 4, col = 1, index = 11\<rparr>,
   \<lparr>row = 4, col = 2, index = 12\<rparr>, \<lparr>row = 4, col = 3, index = 13\<rparr>,
   \<lparr>row = 4, col = 4, index = 14\<rparr>]"
  by (simp add: holes_def makeBoard_grid)

lemma length_holes_makeBoard: "length (holes makeBoard) = 15"
  by (simp add: holes_makeBoard)

lemma wf_board_makeBoard: "wf_board makeBoard"
  by (simp add: wf_board_def holes_makeBoard makeBoard_grid
      upt_rec [of _ "numeral _"] upt_rec [of _ "Suc _"] del: set_upt)

lemma inBounds_makeBoard: "inBounds makeBoard"
  by (simp add: inBounds_def holes_makeBoard makeBoard_grid directions_def N_def
      neighbor_def gridAt_def)

lemma no_throw_makeBoard: "snd (possibleMoves p makeBoard) = None"
  by (simp add: possibleMoves_inBounds [OF inBounds_makeBoard])

lemma yields_simps:
  "yields (Inr None) = []" "yields (Inr (Some m)) = [m]" "yields (Inl e) = []"
  by (simp_all add: yields_def)

lemma yields_if: "yields (if c then x else y) = (if c then yields x else yields y)"
  by simp

lemma concat_map_if:
  "concat (map f (if c then xs else [])) = (if c then concat (map f xs) else [])"
  by simp

text \<open>On the standard board the generator is the jump table filtered by the position.\<close>

lemma possibleMoves_makeBoard:
  "possibleMoves p makeBoard =
     (concat (map (\<lambda>(s, js).
        if hasPeg p s \<noteq> 0
        then concat (map (\<lambda>(md, dst).
               if isEmpty p md then []
               else if hasPeg p dst \<noteq> 0 then []
               else [\<lparr>start = s, middle = md, destination = dst,
                      mask = oneShl (index s) OR oneShl (index md) OR oneShl (index dst)\<rparr>]) js)
        else []) stdJumps), None)"
  by (simp add: possibleMoves_inBounds [OF inBounds_makeBoard] outcomes_def makeBoard_grid
      directions_def N_def neighbor_def gridAt_def jump_def stdJumps_def
      yields_simps yields_if concat_map_if
      split del: if_split cong: if_cong)

subsection \<open>Running the search on a given position\<close>

lemma addMoves_step:
  "addMoves b (numeral k) \<lparr>bits = w\<rparr> =
     (case possibleMoves \<lparr>bits = w\<rparr> b of
        (ms, err) \<Rightarrow>
          tryMoves (\<lambda>m. addMoves b (pred_numeral k) (apply_move m \<lparr>bits = w\<rparr>)) ms err)"
  by (simp add: numeral_eq_Suc)

lemma apply_move_step:
  "apply_move \<lparr>start = s, middle = md, destination = dst, mask = k\<rparr> \<lparr>bits = w\<rparr> =
     \<lparr>bits = w XOR k\<rparr>"
  by (simp add: apply_move_def)

lemmas run_moves = possibleMoves_makeBoard stdJumps_def hasPeg_def isEmpty_def oneShl_def
  shiftCount_def apply_move_step

lemma vacancy12: "fullBoardWithVacancyAt 12 = \<lparr>bits = 0x6fff\<rparr>"
  by (simp add: fullBoardWithVacancyAt_def oneShl_def shiftCount_def)

lemma solve_vacancy12: "solve (fullBoardWithVacancyAt 12) makeBoard = Inr (Some solution12)"
  by (simp add: solve_def vacancy12 addMoves_step run_moves solution12_def)

section \<open>Auxiliary facts for the claims\<close>

lemma directionsC_eq: "directionsC g h = map (neighbor g) (directions h)"
  by (simp add: directionsC_def directions_def neighbor_def [abs_def])

lemma outcomesC_eq: "outcomesC p b = outcomes p b"
  by (simp add: outcomesC_def outcomes_def directionsC_eq comp_def cong: if_cong)

lemma addMovesC_eq: "addMovesC b d p = addMoves b d p"
  by (induction d arbitrary: p) (simp_all add: possibleMovesC_def possibleMoves_def outcomesC_eq)

lemma first_move_vacancy12:
  "\<lparr>start = \<lparr>row = 2, col = 0, index = 3\<rparr>, middle = \<lparr>row = 3, col = 1, index = 7\<rparr>,
     destination = \<lparr>row = 4, col = 2, index = 12\<rparr>, mask = 4232\<rparr>
   \<in> set (fst (possibleMoves (fullBoardWithVacancyAt 12) makeBoard))"
  by (simp add: vacancy12 run_moves)

lemma bit_0x7fff: "bit (0x7fff :: int) n \<longleftrightarrow> n < 15"
  using bit_mask_iff [where ?'a = int, of 15 n]
  by (auto simp add: mask_eq_exp_minus_1)

lemma directions_in_bounds:
  assumes s: "s \<in> set (holes makeBoard)" and d: "d \<in> set (directions s)"
  shows "\<exists>md dst. neighbor (grid makeBoard) d s = Some md \<and>
        neighbor (grid makeBoard) d md = Some dst \<and>
        md \<in> set (holes makeBoard) \<and> dst \<in> set (holes makeBoard) \<and>
        row md = row s + rowDelta d \<and> col md = col s + colDelta d \<and>
        row dst = row s + 2 * rowDelta d \<and> col dst = col s + 2 * colDelta d"
proof -
  from inBounds_makeBoard s d obtain md dst
    where n: "neighbor (grid makeBoard) d s = Some md"
      "neighbor (grid makeBoard) d md = Some dst"
    unfolding inBounds_def by (fastforce split: option.splits)
  have mem: "md \<in> set (holes makeBoard)" "dst \<in> set (holes makeBoard)"
    using n by (auto simp: neighbor_def holes_def dest: gridAt_mem)
  have c1: "row md = row s + rowDelta d" "col md = col s + colDelta d"
    using wf_gridAt [OF wf_board_makeBoard] n(1) by (simp_all add: neighbor_def)
  have c2: "row dst = row md + rowDelta d" "col dst = col md + colDelta d"
    using wf_gridAt [OF wf_board_makeBoard] n(2) by (simp_all add: neighbor_def)
  show ?thesis using n mem c1 c2 by auto
qed

lemma conditions_in_bounds:
  "\<forall>s \<in> set (holes makeBoard).
      (col s > 1 \<longrightarrow> gridAt (grid makeBoard) (row s) (col s - 1) \<noteq> None \<and>
         gridAt (grid makeBoard) (row s) (col s - 2) \<noteq> None) \<and>
      (col s + 2 \<le> row s \<longrightarrow> gridAt (grid makeBoard) (row s) (col s + 1) \<noteq> None \<and>
         gridAt (grid makeBoard) (row s) (col s + 2) \<noteq> None) \<and>
      (row s > 1 \<and> col s < row s - 2 \<longrightarrow>
         gridAt (grid makeBoard) (row s - 1) (col s) \<noteq> None \<and>
         gridAt (grid makeBoard) (row s - 2) (col s) \<noteq> None) \<and>
      (row s > 1 \<and> col s > 1 \<longrightarrow>
         gridAt (grid makeBoard) (row s - 1) (col s - 1) \<noteq> None \<and>
         gridAt (grid makeBoard) (row s - 2) (col s - 2) \<noteq> None) \<and>
      (row s < N - 2 \<longrightarrow>
         gridAt (grid makeBoard) (row s + 1) (col s) \<noteq> None \<and>
         gridAt (grid makeBoard) (row s + 2) (col s) \<noteq> None \<and>
         gridAt (grid makeBoard) (row s + 1) (col s + 1) \<noteq> None \<and>
         gridAt (grid makeBoard) (row s + 2) (col s + 2) \<noteq> None)"
  by (simp add: holes_makeBoard makeBoard_grid gridAt_def N_def)

lemma solve_sound_makeBoard:
  assumes "solve p makeBoard = Inr (Some ms)"
  shows "length ms = 13" and "validPath makeBoard p ms" and "pegCount p makeBoard = 14"
    and "pegCounts makeBoard ms p = map (\<lambda>k. 14 - k) [0..<14]"
proof -
  from assms have a: "length ms = 13 \<and> validPath makeBoard p ms"
    unfolding solve_def by (rule addMoves_sound)
  then show "length ms = 13" "validPath makeBoard p ms" by simp_all
  from a have ne: "ms \<noteq> []" by auto
  from pegCounts_validPath [OF wf_board_makeBoard, of p ms] a ne
  have pc: "pegCounts makeBoard ms p = map (\<lambda>k. pegCount p makeBoard - k) [0..<14]"
    and b: "13 < pegCount p makeBoard" "pegCount p makeBoard < 15"
    by (simp_all add: length_holes_makeBoard)
  from b show c: "pegCount p makeBoard = 14" by simp
  from pc show "pegCounts makeBoard ms p = map (\<lambda>k. 14 - k) [0..<14]"
    unfolding c .
qed

lemma counts_14: "map (\<lambda>k. 14 - k) [0..<14] = [14, 13, 12, 11, 10, 9, 8, 7, 6, 5, 4, 3, 2, 1 :: nat]"
  by (simp add: upt_rec [of _ "numeral _"] upt_rec [of _ "Suc _"])

lemma pegCounts_nth:
  "k \<le> length ms \<Longrightarrow> pegCounts b ms p ! k = pegCount (positionsAlong ms p ! k) b"
  by (simp add: pegCounts_def length_positionsAlong)

lemma pegCounts_last: "last (pegCounts b ms p) = pegCount (applyMoves ms p) b"
  by (simp add: pegCounts_def last_map positionsAlong_neq_Nil positionsAlong_last)

lemma pegCounts_solution12:
  "pegCounts makeBoard solution12 (fullBoardWithVacancyAt 12) =
     [14, 13, 12, 11, 10, 9, 8, 7, 6, 5, 4, 3, 2, 1]"
  using solve_sound_makeBoard(4) [OF solve_vacancy12] counts_14 by simp

lemma solve_no_throw: "solve p makeBoard \<noteq> Inl e"
  unfolding solve_def using no_throw_makeBoard by (intro addMoves_no_throw) simp

lemma solve_None_iff:
  "solve p makeBoard = Inr None \<longleftrightarrow> \<not> (\<exists>ms. length ms = 13 \<and> validPath makeBoard p ms)"
proof
  assume n: "solve p makeBoard = Inr None"
  show "\<not> (\<exists>ms. length ms = 13 \<and> validPath makeBoard p ms)"
  proof
    assume "\<exists>ms. length ms = 13 \<and> validPath makeBoard p ms"
    then obtain ms where ms: "length ms = 13" "validPath makeBoard p ms" by blast
    from addMoves_complete [of makeBoard p ms] ms no_throw_makeBoard
    have "\<exists>sol. addMoves makeBoard 13 p = Inr (Some sol)" by simp
    with n show False by (simp add: solve_def)
  qed
next
  assume a: "\<not> (\<exists>ms. length ms = 13 \<and> validPath makeBoard p ms)"
  show "solve p makeBoard = Inr None"
  proof (cases "solve p makeBoard")
    case (Inl e)
    with solve_no_throw show ?thesis by simp
  next
    case (Inr r)
    show ?thesis
    proof (cases r)
      case None
      with Inr show ?thesis by simp
    next
      case (Some ms)
      with Inr solve_sound_makeBoard(1,2) [of p ms] a show ?thesis by blast
    qed
  qed
qed

lemma few_pegs_no_moves:
  assumes "pegCount p makeBoard \<le> 1"
  shows "possibleMoves p makeBoard = ([], None)"
proof -
  have "fst (possibleMoves p makeBoard) = []"
  proof (rule ccontr)
    assume "fst (possibleMoves p makeBoard) \<noteq> []"
    then obtain m where "m \<in> set (fst (possibleMoves p makeBoard))"
      by (cases "fst (possibleMoves p makeBoard)") auto
    from yielded_pegCount(2) [OF wf_board_makeBoard this] assms show False by simp
  qed
  with no_throw_makeBoard [of p] show ?thesis by (simp add: prod_eq_iff)
qed

lemma up_direction_condition:
  "d \<in> set (directions s) \<Longrightarrow> rowDelta d = -1 \<Longrightarrow> colDelta d = 0 \<Longrightarrow>
     row s > 1 \<and> col s < row s - 2"
  by (auto simp: directions_def split: if_splits)

lemma no_up_jump_on_diagonal:
  assumes wf: "wf_board b" and y: "m \<in> set (fst (possibleMoves p b))"
    and c: "col (start m) = row (start m) - 2"
  shows "\<not> (row (middle m) = row (start m) - 1 \<and> col (middle m) = col (start m))"
proof
  assume a: "row (middle m) = row (start m) - 1 \<and> col (middle m) = col (start m)"
  from possibleMoves_yieldD(3) [OF y] obtain d
    where d: "d \<in> set (directions (start m))"
      and n: "neighbor (grid b) d (start m) = Some (middle m)" by blast
  from n have "row (middle m) = row (start m) + rowDelta d"
    "col (middle m) = col (start m) + colDelta d"
    using wf_gridAt [OF wf] by (simp_all add: neighbor_def)
  with a have "rowDelta d = -1" "colDelta d = 0" by simp_all
  from up_direction_condition [OF d this] c show False by simp
qed

lemma down_jump_yielded:
  assumes "upper \<in> set (holes makeBoard)" and "row upper < 3"
    and "gridAt (grid makeBoard) (row upper + 1) (col upper) = Some md"
    and "gridAt (grid makeBoard) (row md + 1) (col md) = Some s"
    and "hasPeg p upper \<noteq> 0" and "hasPeg p md \<noteq> 0" and "hasPeg p s = 0"
  shows "\<lparr>start = upper, middle = md, destination = s,
           mask = oneShl (index upper) OR oneShl (index md) OR oneShl (index s)\<rparr>
         \<in> set (fst (possibleMoves p makeBoard))"
proof (rule yielded_intro [OF inBounds_makeBoard assms(1) assms(5), where d = "\<lparr>rowDelta = 1, colDelta = 0\<rparr>"])
  show "\<lparr>rowDelta = 1, colDelta = 0\<rparr> \<in> set (directions upper)"
    using assms(2) by (simp add: directions_def N_def)
  show "neighbor (grid makeBoard) \<lparr>rowDelta = 1, colDelta = 0\<rparr> upper = Some md"
    using assms(3) by (simp add: neighbor_def)
  show "neighbor (grid makeBoard) \<lparr>rowDelta = 1, colDelta = 0\<rparr> md = Some s"
    using assms(4) by (simp add: neighbor_def)
qed (rule assms)+

lemma diagonal_holes:
  assumes "s \<in> set (holes makeBoard)" and "col s = row s - 2"
  shows "s = \<lparr>row = 2, col = 0, index = 3\<rparr> \<or> s = \<lparr>row = 3, col = 1, index = 7\<rparr> \<or>
    s = \<lparr>row = 4, col = 2, index = 12\<rparr>"
  using assms by (auto simp: holes_makeBoard)

lemma down_jumps_onto_diagonal:
  assumes s: "s \<in> set (holes makeBoard)" and c: "col s = row s - 2"
  shows "\<exists>upper md. gridAt (grid makeBoard) (row s - 2) (col s) = Some upper \<and>
      gridAt (grid makeBoard) (row s - 1) (col s) = Some md \<and>
      (hasPeg p upper \<noteq> 0 \<and> hasPeg p md \<noteq> 0 \<and> hasPeg p s = 0 \<longrightarrow>
         \<lparr>start = upper, middle = md, destination = s,
            mask = oneShl (index upper) OR oneShl (index md) OR oneShl (index s)\<rparr>
         \<in> set (fst (possibleMoves p makeBoard)))"
proof -
  have g: "gridAt (grid makeBoard) (row s - 2) (col s) \<noteq> None"
    "gridAt (grid makeBoard) (row s - 1) (col s) \<noteq> None"
    using diagonal_holes [OF s c] by (auto simp: gridAt_def makeBoard_grid)
  then obtain upper md where t: "gridAt (grid makeBoard) (row s - 2) (col s) = Some upper"
    and m: "gridAt (grid makeBoard) (row s - 1) (col s) = Some md" by auto
  note wt = wf_gridAt [OF wf_board_makeBoard t] and wm = wf_gridAt [OF wf_board_makeBoard m]
  have upper: "upper \<in> set (holes makeBoard)" using gridAt_mem [OF t] by (simp add: holes_def)
  have lt: "row upper < 3" using diagonal_holes [OF s c] wt by auto
  have n1: "gridAt (grid makeBoard) (row upper + 1) (col upper) = Some md"
    using m wt by simp
  have "gridAt (grid makeBoard) (row s) (col s) = Some s"
    using diagonal_holes [OF s c] by (auto simp: gridAt_def makeBoard_grid)
  then have n2: "gridAt (grid makeBoard) (row md + 1) (col md) = Some s"
    using wm by simp
  show ?thesis
    using t m down_jump_yielded [OF upper lt n1 n2] by blast
qed

section \<open>Claims\<close>

subsection \<open>C3: constructing a position with an out-of-range vacancy\<close>

text \<open>
  C3, as stated: an initial position with a vacancy index outside 0..14 is rejected and
  never yields a position with an unused high bit set or with wrapped bits. This fails:
  \<open>fullBoardWithVacancyAt\<close> has no range check. Index 15 gives the position \<open>0xFFFF\<close>,
  with bit 15 set, and index -1 gives \<open>0x80007FFF\<close>, with bit 31 set, because the
  shift count wraps modulo 32.
\<close>

theorem vacancy_out_of_range_counterexample:
  "bits (fullBoardWithVacancyAt 15) = 0xFFFF \<and> bit (bits (fullBoardWithVacancyAt 15)) 15 \<and>
   bits (fullBoardWithVacancyAt (- 1)) = 0x80007FFF \<and>
   bit (bits (fullBoardWithVacancyAt (- 1))) 31"
  by (simp add: fullBoardWithVacancyAt_def oneShl_def shiftCount_def)

text \<open>
  C3, amended: \<open>fullBoardWithVacancyAt\<close> returns a position for every integer index.
  Bit \<open>n\<close> of the result is set exactly when \<open>n < 15\<close> differs from
  \<open>n = index mod 32\<close>. For an index in 0..14 this is the board with every hole
  occupied except the hole of that index.
\<close>

theorem vacancy_bits:
  "(bit (bits (fullBoardWithVacancyAt i)) n \<longleftrightarrow> (n < 15) \<noteq> (n = nat (i mod 32))) \<and>
   (0 \<le> i \<and> i < 15 \<longrightarrow> (bit (bits (fullBoardWithVacancyAt i)) n \<longleftrightarrow> n < 15 \<and> n \<noteq> nat i))"
proof -
  have a: "bit (bits (fullBoardWithVacancyAt i)) n \<longleftrightarrow> (n < 15) \<noteq> (n = nat (i mod 32))"
    by (auto simp add: fullBoardWithVacancyAt_def bit_xor_iff bit_oneShl bit_0x7fff shiftCount_def)
  have "nat (i mod 32) = nat i" "nat i < 15" if "0 \<le> i" "i < 15"
    using that by simp_all
  with a show ?thesis by auto
qed

theorem vacancy_bits_witness:
  "(0::int) \<le> 12 \<and> (12::int) < 15 \<and> \<not> bit (bits (fullBoardWithVacancyAt 12)) 12 \<and>
   bit (bits (fullBoardWithVacancyAt 12)) 11"
  using vacancy_bits [of 12 12] vacancy_bits [of 12 11] by simp

subsection \<open>C6: what a yielded move does\<close>

text \<open>
  C6: every move yielded by \<open>possibleMoves\<close> has its start and middle holes occupied
  and its destination hole empty in the position, on every board. On a board that
  satisfies the board invariant, the three holes have three distinct bits, applying the
  move changes exactly those three bits of the position, and afterwards start and middle
  are empty and the destination is occupied.
\<close>

theorem yielded_move_effect:
  assumes y: "m \<in> set (fst (possibleMoves p b))"
  shows "hasPeg p (start m) \<noteq> 0 \<and> hasPeg p (middle m) \<noteq> 0 \<and> isEmpty p (destination m) \<and>
    (wf_board b \<longrightarrow>
       distinct [nat (index (start m)), nat (index (middle m)), nat (index (destination m))] \<and>
       {n. bit (bits (apply_move m p)) n \<noteq> bit (bits p) n} =
         {nat (index (start m)), nat (index (middle m)), nat (index (destination m))} \<and>
       isEmpty (apply_move m p) (start m) \<and> isEmpty (apply_move m p) (middle m) \<and>
       hasPeg (apply_move m p) (destination m) \<noteq> 0)"
proof -
  note D = possibleMoves_yieldD [OF y]
  have 1: "hasPeg p (start m) \<noteq> 0 \<and> hasPeg p (middle m) \<noteq> 0 \<and> isEmpty p (destination m)"
    using D(2,4,5) by (simp add: isEmpty_def)
  have 2: "distinct [nat (index (start m)), nat (index (middle m)), nat (index (destination m))] \<and>
       {n. bit (bits (apply_move m p)) n \<noteq> bit (bits p) n} =
         {nat (index (start m)), nat (index (middle m)), nat (index (destination m))} \<and>
       isEmpty (apply_move m p) (start m) \<and> isEmpty (apply_move m p) (middle m) \<and>
       hasPeg (apply_move m p) (destination m) \<noteq> 0" if wf: "wf_board b"
  proof -
    have b: "bitOf (start m) = nat (index (start m))"
      "bitOf (middle m) = nat (index (middle m))"
      "bitOf (destination m) = nat (index (destination m))"
      using wf_bitOf [OF wf] D(1) yielded_holes [OF y] by simp_all
    note dist = yielded_bits_distinct [OF wf y]
    have occ: "bit (bits p) (bitOf (start m))" "bit (bits p) (bitOf (middle m))"
      "\<not> bit (bits p) (bitOf (destination m))"
      using D(2,4,5) by (simp_all add: hasPeg_bitOf hasPeg_bitOf0)
    note ba = bit_apply_move [OF D(6), of p]
    have "{n. bit (bits (apply_move m p)) n \<noteq> bit (bits p) n} =
        {bitOf (start m), bitOf (middle m), bitOf (destination m)}"
      unfolding ba by auto
    moreover have "isEmpty (apply_move m p) (start m)" "isEmpty (apply_move m p) (middle m)"
      "hasPeg (apply_move m p) (destination m) \<noteq> 0"
      using occ dist by (simp_all add: isEmpty_def hasPeg_bitOf0 hasPeg_bitOf ba)
    ultimately show ?thesis using dist by (simp add: b)
  qed
  from 1 2 show ?thesis by blast
qed

theorem yielded_move_effect_witness:
  "\<lparr>start = \<lparr>row = 2, col = 0, index = 3\<rparr>, middle = \<lparr>row = 3, col = 1, index = 7\<rparr>,
     destination = \<lparr>row = 4, col = 2, index = 12\<rparr>, mask = 4232\<rparr>
   \<in> set (fst (possibleMoves (fullBoardWithVacancyAt 12) makeBoard)) \<and>
   wf_board makeBoard \<and>
   isEmpty (fullBoardWithVacancyAt 12) \<lparr>row = 4, col = 2, index = 12\<rparr> \<and>
   {n. bit (bits (apply_move \<lparr>start = \<lparr>row = 2, col = 0, index = 3\<rparr>,
          middle = \<lparr>row = 3, col = 1, index = 7\<rparr>,
          destination = \<lparr>row = 4, col = 2, index = 12\<rparr>, mask = 4232\<rparr>
          (fullBoardWithVacancyAt 12))) n \<noteq> bit (bits (fullBoardWithVacancyAt 12)) n} = {3, 7, 12}"
  using yielded_move_effect [OF first_move_vacancy12] first_move_vacancy12 wf_board_makeBoard
  by simp

subsection \<open>C7: applying a move twice\<close>

text \<open>
  C7: for every position and every move yielded for it, applying the move twice gives
  the position back.
\<close>

theorem apply_move_twice:
  "m \<in> set (fst (possibleMoves p b)) \<Longrightarrow> apply_move m (apply_move m p) = p"
  by (simp add: apply_move_def xor.assoc)

theorem apply_move_twice_witness:
  "\<lparr>start = \<lparr>row = 2, col = 0, index = 3\<rparr>, middle = \<lparr>row = 3, col = 1, index = 7\<rparr>,
     destination = \<lparr>row = 4, col = 2, index = 12\<rparr>, mask = 4232\<rparr>
   \<in> set (fst (possibleMoves (fullBoardWithVacancyAt 12) makeBoard)) \<and>
   apply_move \<lparr>start = \<lparr>row = 2, col = 0, index = 3\<rparr>, middle = \<lparr>row = 3, col = 1, index = 7\<rparr>,
     destination = \<lparr>row = 4, col = 2, index = 12\<rparr>, mask = 4232\<rparr>
    (apply_move \<lparr>start = \<lparr>row = 2, col = 0, index = 3\<rparr>, middle = \<lparr>row = 3, col = 1, index = 7\<rparr>,
     destination = \<lparr>row = 4, col = 2, index = 12\<rparr>, mask = 4232\<rparr> (fullBoardWithVacancyAt 12))
   = fullBoardWithVacancyAt 12"
  using apply_move_twice [OF first_move_vacancy12] first_move_vacancy12 by simp

subsection \<open>C9: the two solver variants\<close>

text \<open>
  C9: the variant with offset pairs and the variant with neighbour closures yield the
  same moves in the same order, with the same exception behaviour, and their \<open>solve\<close>
  functions return the same result, for every position and every board.
\<close>

theorem variants_agree:
  "possibleMovesC p b = possibleMoves p b \<and> solveC p b = solve p b"
  by (simp add: possibleMovesC_def possibleMoves_def outcomesC_eq solveC_def solve_def addMovesC_eq)

subsection \<open>C10: grid accesses stay on the board\<close>

text \<open>
  C10: on the standard board, for every hole and every direction that \<open>directions\<close>
  yields for it, the neighbour one step away and the neighbour two steps away are holes of
  the board, at the expected coordinates. The same is stated condition by condition:
  wherever the boundary condition of a direction holds, both grid reads succeed. Hence
  move enumeration never throws on the standard board.
\<close>

theorem accesses_in_bounds:
  "(\<forall>s \<in> set (holes makeBoard). \<forall>d \<in> set (directions s).
      \<exists>md dst. neighbor (grid makeBoard) d s = Some md \<and>
        neighbor (grid makeBoard) d md = Some dst \<and>
        md \<in> set (holes makeBoard) \<and> dst \<in> set (holes makeBoard) \<and>
        row md = row s + rowDelta d \<and> col md = col s + colDelta d \<and>
        row dst = row s + 2 * rowDelta d \<and> col dst = col s + 2 * colDelta d) \<and>
   (\<forall>s \<in> set (holes makeBoard).
      (col s > 1 \<longrightarrow> gridAt (grid makeBoard) (row s) (col s - 1) \<noteq> None \<and>
         gridAt (grid makeBoard) (row s) (col s - 2) \<noteq> None) \<and>
      (col s + 2 \<le> row s \<longrightarrow> gridAt (grid makeBoard) (row s) (col s + 1) \<noteq> None \<and>
         gridAt (grid makeBoard) (row s) (col s + 2) \<noteq> None) \<and>
      (row s > 1 \<and> col s < row s - 2 \<longrightarrow>
         gridAt (grid makeBoard) (row s - 1) (col s) \<noteq> None \<and>
         gridAt (grid makeBoard) (row s - 2) (col s) \<noteq> None) \<and>
      (row s > 1 \<and> col s > 1 \<longrightarrow>
         gridAt (grid makeBoard) (row s - 1) (col s - 1) \<noteq> None \<and>
         gridAt (grid makeBoard) (row s - 2) (col s - 2) \<noteq> None) \<and>
      (row s < N - 2 \<longrightarrow>
         gridAt (grid makeBoard) (row s + 1) (col s) \<noteq> None \<and>
         gridAt (grid makeBoard) (row s + 2) (col s) \<noteq> None \<and>
         gridAt (grid makeBoard) (row s + 1) (col s + 1) \<noteq> None \<and>
         gridAt (grid makeBoard) (row s + 2) (col s + 2) \<noteq> None)) \<and>
   snd (possibleMoves p makeBoard) = None"
  using directions_in_bounds conditions_in_bounds no_throw_makeBoard [of p]
  by (intro conjI) blast+

theorem accesses_in_bounds_witness:
  "\<lparr>row = 2, col = 0, index = 3\<rparr> \<in> set (holes makeBoard) \<and>
   \<lparr>rowDelta = 1, colDelta = 1\<rparr> \<in> set (directions \<lparr>row = 2, col = 0, index = 3\<rparr>) \<and>
   neighbor (grid makeBoard) \<lparr>rowDelta = 1, colDelta = 1\<rparr> \<lparr>row = 2, col = 0, index = 3\<rparr>
     = Some \<lparr>row = 3, col = 1, index = 7\<rparr> \<and>
   neighbor (grid makeBoard) \<lparr>rowDelta = 1, colDelta = 1\<rparr> \<lparr>row = 3, col = 1, index = 7\<rparr>
     = Some \<lparr>row = 4, col = 2, index = 12\<rparr> \<and>
   snd (possibleMoves (fullBoardWithVacancyAt 12) makeBoard) = None"
proof -
  let ?s = "\<lparr>row = 2, col = 0, index = 3\<rparr>"
  let ?d = "\<lparr>rowDelta = 1, colDelta = 1\<rparr>"
  have s: "?s \<in> set (holes makeBoard)" by (simp add: holes_makeBoard)
  have d: "?d \<in> set (directions ?s)" by (simp add: directions_def N_def)
  note t = accesses_in_bounds [of "fullBoardWithVacancyAt 12"]
  from t have "\<forall>s \<in> set (holes makeBoard). \<forall>d \<in> set (directions s).
      \<exists>md dst. neighbor (grid makeBoard) d s = Some md \<and>
        neighbor (grid makeBoard) d md = Some dst"
    by blast
  with s d obtain md dst where n: "neighbor (grid makeBoard) ?d ?s = Some md"
    "neighbor (grid makeBoard) ?d md = Some dst" by blast
  have md: "md = \<lparr>row = 3, col = 1, index = 7\<rparr>"
    using n(1) by (simp add: neighbor_def gridAt_def makeBoard_grid)
  have dst: "dst = \<lparr>row = 4, col = 2, index = 12\<rparr>"
    using n(2) unfolding md by (simp add: neighbor_def gridAt_def makeBoard_grid)
  from t have "snd (possibleMoves (fullBoardWithVacancyAt 12) makeBoard) = None" by blast
  with n s d md dst show ?thesis by simp
qed

subsection \<open>C1: the end-to-end run from vacancy 12\<close>

text \<open>
  C1, as stated: on the standard board with hole 12 vacant, \<open>solve\<close> returns a solution
  of exactly 14 moves. This fails: the search depth is 13 and the list returned has 13
  moves, one for each of the 13 pegs to remove from the 14 on the board.
\<close>

theorem end_to_end_counterexample:
  "solve (fullBoardWithVacancyAt 12) makeBoard = Inr (Some solution12) \<and>
   length solution12 \<noteq> 14"
  using solve_vacancy12 by (simp add: solution12_def)

text \<open>
  C1, amended: on the standard board with hole 12 vacant, \<open>solve\<close> returns a solution
  of exactly 13 moves (the list \<open>solution12\<close>); the board has 15 holes; the positions
  passed while applying the solution in order have peg counts 14, 13, ..., 1, that is 14
  minus the number of moves applied so far.
\<close>

theorem end_to_end_vacancy12:
  "solve (fullBoardWithVacancyAt 12) makeBoard = Inr (Some solution12) \<and>
   length solution12 = 13 \<and>
   length (holes makeBoard) = 15 \<and>
   pegCounts makeBoard solution12 (fullBoardWithVacancyAt 12) =
     [14, 13, 12, 11, 10, 9, 8, 7, 6, 5, 4, 3, 2, 1]"
  using solve_vacancy12 pegCounts_solution12 length_holes_makeBoard
  by (simp add: solution12_def)

subsection \<open>C2: depth bound and solution length\<close>

text \<open>
  C2, as stated: the depth bound of the search equals the peg count of the position minus
  one, so \<open>solve\<close> succeeds on solvable positions of any peg count. This fails: the
  position with pegs in holes 0 and 1 only has two pegs and the search of depth 1 solves
  it, but \<open>solve\<close> searches to depth 13 and returns \<open>null\<close>.
\<close>

theorem solve_depth_counterexample:
  "pegCount \<lparr>bits = 3\<rparr> makeBoard = 2 \<and>
   addMoves makeBoard (pegCount \<lparr>bits = 3\<rparr> makeBoard - 1) \<lparr>bits = 3\<rparr> =
     Inr (Some [\<lparr>start = \<lparr>row = 0, col = 0, index = 0\<rparr>,
                 middle = \<lparr>row = 1, col = 0, index = 1\<rparr>,
                 destination = \<lparr>row = 2, col = 0, index = 3\<rparr>, mask = 11\<rparr>]) \<and>
   solve \<lparr>bits = 3\<rparr> makeBoard = Inr None"
proof -
  have pc: "pegCount \<lparr>bits = 3\<rparr> makeBoard = 2"
    by (simp add: pegCount_def holes_makeBoard hasPeg_def oneShl_def shiftCount_def)
  have "addMoves makeBoard (Suc 0) \<lparr>bits = 3\<rparr> =
     Inr (Some [\<lparr>start = \<lparr>row = 0, col = 0, index = 0\<rparr>,
                 middle = \<lparr>row = 1, col = 0, index = 1\<rparr>,
                 destination = \<lparr>row = 2, col = 0, index = 3\<rparr>, mask = 11\<rparr>])"
    by (simp add: run_moves)
  moreover have "solve \<lparr>bits = 3\<rparr> makeBoard = Inr None"
    by (simp add: solve_def addMoves_step run_moves)
  ultimately show ?thesis using pc by simp
qed

text \<open>
  C2, amended: the depth bound of \<open>solve\<close> is the constant 13 for every position and
  board, and every solution it returns has 13 moves. On the standard board \<open>solve\<close>
  returns a solution only for positions with exactly 14 pegs, so the length of a returned
  solution is the initial peg count minus one.
\<close>

theorem solve_depth_and_length:
  "solve p b = addMoves b 13 p \<and>
   (solve p b = Inr (Some ms) \<longrightarrow> length ms = 13) \<and>
   (solve p makeBoard = Inr (Some ms) \<longrightarrow>
      pegCount p makeBoard = 14 \<and> length ms = pegCount p makeBoard - 1)"
proof -
  have "length ms = 13" if "solve p b = Inr (Some ms)"
    using addMoves_sound [of b 13 p ms] that by (simp add: solve_def)
  moreover have "pegCount p makeBoard = 14 \<and> length ms = pegCount p makeBoard - 1"
    if "solve p makeBoard = Inr (Some ms)"
    using solve_sound_makeBoard(1,3) [OF that] by simp
  ultimately show ?thesis by (simp add: solve_def)
qed

theorem solve_depth_and_length_witness:
  "solve (fullBoardWithVacancyAt 12) makeBoard = Inr (Some solution12) \<and>
   length solution12 = 13 \<and> pegCount (fullBoardWithVacancyAt 12) makeBoard = 14"
  using solve_depth_and_length [of "fullBoardWithVacancyAt 12" makeBoard solution12]
    solve_vacancy12 by simp

subsection \<open>C4: positions with at most one peg, and exhaustion\<close>

text \<open>
  C4, as stated: for a one-peg position \<open>solve\<close> returns the empty solution. This
  fails: with a single peg in hole 0 there is no move, the search of depth 13 is exhausted
  at once and \<open>solve\<close> returns \<open>null\<close>.
\<close>

theorem one_peg_counterexample:
  "pegCount \<lparr>bits = 1\<rparr> makeBoard = 1 \<and> solve \<lparr>bits = 1\<rparr> makeBoard = Inr None \<and>
   solve \<lparr>bits = 1\<rparr> makeBoard \<noteq> Inr (Some [])"
proof -
  have "pegCount \<lparr>bits = 1\<rparr> makeBoard = 1"
    by (simp add: pegCount_def holes_makeBoard hasPeg_def oneShl_def shiftCount_def)
  moreover have "solve \<lparr>bits = 1\<rparr> makeBoard = Inr None"
    by (simp add: solve_def addMoves_step run_moves)
  ultimately show ?thesis by simp
qed

text \<open>
  C4, amended: on the standard board \<open>solve\<close> never throws, for any position: it
  returns a list of moves or \<open>null\<close>. For a position with zero or one peg it returns
  \<open>null\<close>. It returns \<open>null\<close> exactly when no list of 13 moves exists in which each
  move is yielded at the position its predecessors lead to, that is when the search is
  exhausted without success.
\<close>

theorem solve_never_throws:
  "(\<exists>r. solve p makeBoard = Inr r) \<and>
   (pegCount p makeBoard \<le> 1 \<longrightarrow> solve p makeBoard = Inr None) \<and>
   (solve p makeBoard = Inr None \<longleftrightarrow>
      \<not> (\<exists>ms. length ms = 13 \<and> validPath makeBoard p ms))"
proof -
  have "\<exists>r. solve p makeBoard = Inr r"
    using solve_no_throw [of p] by (cases "solve p makeBoard") auto
  moreover have "solve p makeBoard = Inr None" if "pegCount p makeBoard \<le> 1"
    using few_pegs_no_moves [OF that] by (simp add: solve_def numeral_eq_Suc)
  ultimately show ?thesis using solve_None_iff by blast
qed

theorem solve_never_throws_witness:
  "pegCount \<lparr>bits = 1\<rparr> makeBoard \<le> 1 \<and> solve \<lparr>bits = 1\<rparr> makeBoard = Inr None \<and>
   pegCount \<lparr>bits = 0\<rparr> makeBoard \<le> 1 \<and> solve \<lparr>bits = 0\<rparr> makeBoard = Inr None"
proof -
  have 1: "pegCount \<lparr>bits = 1\<rparr> makeBoard \<le> 1"
    by (simp add: pegCount_def holes_makeBoard hasPeg_def oneShl_def shiftCount_def)
  have 0: "pegCount \<lparr>bits = 0\<rparr> makeBoard \<le> 1"
    by (simp add: pegCount_def holes_makeBoard hasPeg_def)
  from solve_never_throws [of "\<lparr>bits = 1\<rparr>"] solve_never_throws [of "\<lparr>bits = 0\<rparr>"] 0 1
  show ?thesis by blast
qed

subsection \<open>C5: the upward jump that is never generated\<close>

text \<open>
  C5: with hole 0 vacant on the standard board, holes (2,0) and (1,0) hold pegs, hole
  (0,0) is empty and all three are on the board, yet the only move yielded is the jump
  from (2,2) over (1,1): the jump from (2,0) over (1,0) to (0,0) is not generated. For
  every position, no yielded move starts at a hole with \<open>col = row - 2\<close> and goes
  straight up (row delta -1, col delta 0). The downward jump in the opposite direction,
  from the hole two rows above over the hole between onto that hole, is yielded whenever
  the two upper holes hold pegs and the hole itself is empty.
\<close>

theorem missing_up_jump:
  "hasPeg (fullBoardWithVacancyAt 0) \<lparr>row = 2, col = 0, index = 3\<rparr> \<noteq> 0 \<and>
   hasPeg (fullBoardWithVacancyAt 0) \<lparr>row = 1, col = 0, index = 1\<rparr> \<noteq> 0 \<and>
   isEmpty (fullBoardWithVacancyAt 0) \<lparr>row = 0, col = 0, index = 0\<rparr> \<and>
   gridAt (grid makeBoard) 2 0 = Some \<lparr>row = 2, col = 0, index = 3\<rparr> \<and>
   gridAt (grid makeBoard) 1 0 = Some \<lparr>row = 1, col = 0, index = 1\<rparr> \<and>
   gridAt (grid makeBoard) 0 0 = Some \<lparr>row = 0, col = 0, index = 0\<rparr> \<and>
   possibleMoves (fullBoardWithVacancyAt 0) makeBoard =
     ([\<lparr>start = \<lparr>row = 2, col = 2, index = 5\<rparr>, middle = \<lparr>row = 1, col = 1, index = 2\<rparr>,
        destination = \<lparr>row = 0, col = 0, index = 0\<rparr>, mask = 37\<rparr>], None) \<and>
   (\<forall>p. \<forall>m \<in> set (fst (possibleMoves p makeBoard)).
      col (start m) = row (start m) - 2 \<longrightarrow>
      \<not> (row (middle m) = row (start m) - 1 \<and> col (middle m) = col (start m))) \<and>
   (\<forall>p. \<forall>s \<in> set (holes makeBoard). col s = row s - 2 \<longrightarrow>
      (\<exists>upper md. gridAt (grid makeBoard) (row s - 2) (col s) = Some upper \<and>
         gridAt (grid makeBoard) (row s - 1) (col s) = Some md \<and>
         (hasPeg p upper \<noteq> 0 \<and> hasPeg p md \<noteq> 0 \<and> hasPeg p s = 0 \<longrightarrow>
            \<lparr>start = upper, middle = md, destination = s,
               mask = oneShl (index upper) OR oneShl (index md) OR oneShl (index s)\<rparr>
            \<in> set (fst (possibleMoves p makeBoard)))))"
proof -
  have v: "fullBoardWithVacancyAt 0 = \<lparr>bits = 0x7ffe\<rparr>"
    by (simp add: fullBoardWithVacancyAt_def oneShl_def shiftCount_def)
  have 1: "hasPeg (fullBoardWithVacancyAt 0) \<lparr>row = 2, col = 0, index = 3\<rparr> \<noteq> 0 \<and>
   hasPeg (fullBoardWithVacancyAt 0) \<lparr>row = 1, col = 0, index = 1\<rparr> \<noteq> 0 \<and>
   isEmpty (fullBoardWithVacancyAt 0) \<lparr>row = 0, col = 0, index = 0\<rparr>"
    by (simp add: v hasPeg_def isEmpty_def oneShl_def shiftCount_def)
  have 2: "gridAt (grid makeBoard) 2 0 = Some \<lparr>row = 2, col = 0, index = 3\<rparr> \<and>
   gridAt (grid makeBoard) 1 0 = Some \<lparr>row = 1, col = 0, index = 1\<rparr> \<and>
   gridAt (grid makeBoard) 0 0 = Some \<lparr>row = 0, col = 0, index = 0\<rparr>"
    by (simp add: gridAt_def makeBoard_grid)
  have 3: "possibleMoves (fullBoardWithVacancyAt 0) makeBoard =
     ([\<lparr>start = \<lparr>row = 2, col = 2, index = 5\<rparr>, middle = \<lparr>row = 1, col = 1, index = 2\<rparr>,
        destination = \<lparr>row = 0, col = 0, index = 0\<rparr>, mask = 37\<rparr>], None)"
    by (simp add: v run_moves)
  show ?thesis
    using 1 2 3 no_up_jump_on_diagonal [OF wf_board_makeBoard] down_jumps_onto_diagonal
    by (intro conjI) blast+
qed

theorem missing_up_jump_witness:
  "\<lparr>start = \<lparr>row = 2, col = 0, index = 3\<rparr>, middle = \<lparr>row = 3, col = 1, index = 7\<rparr>,
     destination = \<lparr>row = 4, col = 2, index = 12\<rparr>, mask = 4232\<rparr>
   \<in> set (fst (possibleMoves (fullBoardWithVacancyAt 12) makeBoard)) \<and>
   \<lparr>row = 2, col = 0, index = 3\<rparr> \<in> set (holes makeBoard) \<and>
   hasPeg \<lparr>bits = 3\<rparr> \<lparr>row = 0, col = 0, index = 0\<rparr> \<noteq> 0 \<and>
   hasPeg \<lparr>bits = 3\<rparr> \<lparr>row = 1, col = 0, index = 1\<rparr> \<noteq> 0 \<and>
   hasPeg \<lparr>bits = 3\<rparr> \<lparr>row = 2, col = 0, index = 3\<rparr> = 0 \<and>
   \<lparr>start = \<lparr>row = 0, col = 0, index = 0\<rparr>, middle = \<lparr>row = 1, col = 0, index = 1\<rparr>,
     destination = \<lparr>row = 2, col = 0, index = 3\<rparr>, mask = 11\<rparr>
   \<in> set (fst (possibleMoves \<lparr>bits = 3\<rparr> makeBoard))"
proof -
  let ?s = "\<lparr>row = 2, col = 0, index = 3\<rparr>"
  let ?p = "\<lparr>bits = 3\<rparr>"
  have s: "?s \<in> set (holes makeBoard)" by (simp add: holes_makeBoard)
  have occ: "hasPeg ?p \<lparr>row = 0, col = 0, index = 0\<rparr> \<noteq> 0"
    "hasPeg ?p \<lparr>row = 1, col = 0, index = 1\<rparr> \<noteq> 0" "hasPeg ?p ?s = 0"
    by (simp_all add: hasPeg_def oneShl_def shiftCount_def)
  from missing_up_jump have "\<forall>p. \<forall>s \<in> set (holes makeBoard). col s = row s - 2 \<longrightarrow>
      (\<exists>upper md. gridAt (grid makeBoard) (row s - 2) (col s) = Some upper \<and>
         gridAt (grid makeBoard) (row s - 1) (col s) = Some md \<and>
         (hasPeg p upper \<noteq> 0 \<and> hasPeg p md \<noteq> 0 \<and> hasPeg p s = 0 \<longrightarrow>
            \<lparr>start = upper, middle = md, destination = s,
               mask = oneShl (index upper) OR oneShl (index md) OR oneShl (index s)\<rparr>
            \<in> set (fst (possibleMoves p makeBoard))))"
    by blast
  with s obtain upper md where t: "gridAt (grid makeBoard) (row ?s - 2) (col ?s) = Some upper"
    and m: "gridAt (grid makeBoard) (row ?s - 1) (col ?s) = Some md"
    and i: "hasPeg ?p upper \<noteq> 0 \<and> hasPeg ?p md \<noteq> 0 \<and> hasPeg ?p ?s = 0 \<longrightarrow>
            \<lparr>start = upper, middle = md, destination = ?s,
               mask = oneShl (index upper) OR oneShl (index md) OR oneShl (index ?s)\<rparr>
            \<in> set (fst (possibleMoves ?p makeBoard))"
    by fastforce
  have upper: "upper = \<lparr>row = 0, col = 0, index = 0\<rparr>"
    using t by (simp add: gridAt_def makeBoard_grid)
  have md: "md = \<lparr>row = 1, col = 0, index = 1\<rparr>"
    using m by (simp add: gridAt_def makeBoard_grid)
  from i occ have "\<lparr>start = \<lparr>row = 0, col = 0, index = 0\<rparr>,
      middle = \<lparr>row = 1, col = 0, index = 1\<rparr>,
      destination = \<lparr>row = 2, col = 0, index = 3\<rparr>, mask = 11\<rparr>
     \<in> set (fst (possibleMoves ?p makeBoard))"
    unfolding upper md by (simp add: oneShl_def shiftCount_def)
  with s occ first_move_vacancy12 show ?thesis by simp
qed

subsection \<open>C8: peg counts along a returned solution\<close>

text \<open>
  C8: whenever \<open>solve\<close> returns a solution on the standard board, the positions passed
  while applying its moves in order have peg counts 14, 13, ..., 1: each move lowers the
  peg count by exactly one, and the final position has exactly one occupied hole.
\<close>

theorem solution_peg_counts:
  assumes "solve p makeBoard = Inr (Some ms)"
  shows "pegCounts makeBoard ms p = [14, 13, 12, 11, 10, 9, 8, 7, 6, 5, 4, 3, 2, 1] \<and>
    (\<forall>k < length ms. pegCount (positionsAlong ms p ! Suc k) makeBoard + 1 =
        pegCount (positionsAlong ms p ! k) makeBoard) \<and>
    pegCount (applyMoves ms p) makeBoard = 1"
proof -
  note s = solve_sound_makeBoard [OF assms]
  have pc: "pegCounts makeBoard ms p = [14, 13, 12, 11, 10, 9, 8, 7, 6, 5, 4, 3, 2, 1]"
    using s(4) counts_14 by simp
  have step: "pegCount (positionsAlong ms p ! Suc k) makeBoard + 1 =
        pegCount (positionsAlong ms p ! k) makeBoard" if "k < length ms" for k
  proof -
    from that s(1) have k: "k < 13" by simp
    have "pegCounts makeBoard ms p ! Suc k + 1 = pegCounts makeBoard ms p ! k"
      unfolding s(4) using k by simp
    then show ?thesis using that by (simp add: pegCounts_nth)
  qed
  have "pegCount (applyMoves ms p) makeBoard = 1"
    using pegCounts_last [of makeBoard ms p] pc by simp
  with pc step show ?thesis by blast
qed

theorem solution_peg_counts_witness:
  "solve (fullBoardWithVacancyAt 12) makeBoard = Inr (Some solution12) \<and>
   pegCounts makeBoard solution12 (fullBoardWithVacancyAt 12) =
     [14, 13, 12, 11, 10, 9, 8, 7, 6, 5, 4, 3, 2, 1] \<and>
   pegCount (applyMoves solution12 (fullBoardWithVacancyAt 12)) makeBoard = 1"
  using solution_peg_counts [OF solve_vacancy12] solve_vacancy12 by simp

end
